theory Spec2Isabelle
  imports Main "HOL-Library.Log_Nat"
begin

section \<open>The NBT tree\<close>

text \<open>
  The replacer works on the tag tree of the \<^verbatim>\<open>deepslate\<close> library. The code
  distinguishes four kinds of tag by \<^verbatim>\<open>getId()\<close>: \<^verbatim>\<open>NbtType.String\<close>,
  \<^verbatim>\<open>NbtType.Compound\<close>, \<^verbatim>\<open>NbtType.List\<close> and everything else (numbers, arrays,
  End), which it passes through untouched. A compound is a JavaScript \<^verbatim>\<open>Map\<close>: its
  keys are unique and \<^verbatim>\<open>keys()\<close> yields them in insertion order, so it is modelled
  by the list of its entries in that order. The payload of the remaining tag kinds
  is never read; it is carried as a number so that it can be observed to survive.
\<close>

datatype tag =
    NbtString string
  | NbtCompound "(string \<times> tag) list"
  | NbtList "tag list"
  | NbtOther nat

text \<open>
  A compiled \<^verbatim>\<open>RegExp\<close> is represented by what \<^verbatim>\<open>String.prototype.replace\<close> does
  with it: \<open>rx to v\<close> stands for \<^verbatim>\<open>v.replace(regex, to)\<close>. This covers every
  pattern whose \<^verbatim>\<open>replace\<close> depends on the two strings only, which is every flag
  set other than a sticky \<^verbatim>\<open>y\<close> without \<^verbatim>\<open>g\<close>: with \<^verbatim>\<open>g\<close> the search starts at
  index 0 and leaves \<^verbatim>\<open>lastIndex\<close> at 0, without \<^verbatim>\<open>g\<close> and \<^verbatim>\<open>y\<close> it never reads
  \<^verbatim>\<open>lastIndex\<close>. A pattern with \<^verbatim>\<open>y\<close> and no \<^verbatim>\<open>g\<close> starts at the \<^verbatim>\<open>lastIndex\<close>
  that the previous leaf left behind; what it rewrites depends on the walk so far
  and is not covered by this type.
\<close>

type_synonym regexp = "string \<Rightarrow> string \<Rightarrow> string"

text \<open>
  One call of the \<^verbatim>\<open>onReplace\<close> callback: the joined tag path, the old and the new
  value.
\<close>

type_synonym replace_event = "string \<times> string \<times> string"

section \<open>Helpers of the JavaScript runtime\<close>

text \<open>\<^verbatim>\<open>!property\<close> for a value that is \<^verbatim>\<open>null\<close> or a string: \<^verbatim>\<open>null\<close> and the
  empty string are falsy.\<close>

definition truthy :: "string option \<Rightarrow> bool" where
  "truthy p = (case p of None \<Rightarrow> False | Some s \<Rightarrow> s \<noteq> [])"

text \<open>\<^verbatim>\<open>parts.join(sep)\<close>.\<close>

fun join :: "string \<Rightarrow> string list \<Rightarrow> string" where
  "join sep [] = []"
| "join sep [x] = x"
| "join sep (x # y # ys) = x @ sep @ join sep (y # ys)"

text \<open>The decimal rendering of an index inside a template literal.\<close>

fun decimal :: "nat \<Rightarrow> string" where
  "decimal n =
     (if n < 10 then [''0123456789'' ! n]
      else decimal (n div 10) @ [''0123456789'' ! (n mod 10)])"

declare decimal.simps [simp del]

text \<open>\<^verbatim>\<open>`[${i}]`\<close>.\<close>

definition indexSegment :: "nat \<Rightarrow> string" where
  "indexSegment i = ''['' @ decimal i @ '']''"

section \<open>The matcher/replacer: \<^verbatim>\<open>replaceStringsDeep\<close>\<close>

text \<open>
  The arguments of \<^verbatim>\<open>replaceStringsDeep\<close> that every recursive call passes on
  unchanged. \<open>property\<close> is \<^verbatim>\<open>null\<close> or a string; \<open>regex\<close> is \<^verbatim>\<open>null\<close> or the
  compiled pattern; \<open>onReplace\<close> says whether a callback is passed or \<^verbatim>\<open>null\<close>.
  (\<open>from\<close> is a keyword of Isabelle, hence the prime.)
\<close>

record rule_args =
  property :: "string option"
  from' :: string
  to :: string
  useRegex :: bool
  regex :: "regexp option"
  onReplace :: bool

text \<open>
  The test and replacement that the source writes twice, once for a string child of
  a compound and once for a string element of a list:
  \<^verbatim>\<open>
  let newVal = oldVal;
  if (useRegex && regex) {
    newVal = oldVal.replace(regex, to);
    if (newVal !== oldVal) { ...set, notify, changes += 1; continue; }
  } else if (oldVal === from) { ...set to, notify, changes += 1; continue; }
  \<close>
  The result is the new value when the leaf is replaced and \<open>None\<close> when control
  falls through to the recursive call.
\<close>

definition replacement :: "rule_args \<Rightarrow> string \<Rightarrow> string option" where
  "replacement r oldVal =
     (case (if useRegex r then regex r else None) of
        Some rx \<Rightarrow>
          (let newVal = rx (to r) oldVal in if newVal \<noteq> oldVal then Some newVal else None)
      | None \<Rightarrow> (if oldVal = from' r then Some (to r) else None))"

text \<open>The callback is either the logger of \<^verbatim>\<open>processFile\<close> or \<^verbatim>\<open>null\<close>
  (\<open>onReplace r\<close> says which); the model records its calls.\<close>

definition notifyReplace ::
  "rule_args \<Rightarrow> string list \<Rightarrow> string \<Rightarrow> string \<Rightarrow> replace_event list" where
  "notifyReplace r parts oldVal newVal =
     (if onReplace r then [(join '' > '' parts, oldVal, newVal)] else [])"

text \<open>
  The guards in front of that test. For a child of a compound under key \<open>k\<close>:
  \<^verbatim>\<open>child.getId() === NbtType.String\<close> and \<^verbatim>\<open>!property || property === k\<close>; for an
  element of a list: \<^verbatim>\<open>child.getId() === NbtType.String\<close> and \<^verbatim>\<open>!property\<close>. The
  result is the old and the new value when the child is replaced.
\<close>

definition compoundChildHit :: "rule_args \<Rightarrow> string \<Rightarrow> tag \<Rightarrow> (string \<times> string) option" where
  "compoundChildHit r k child =
     (case child of
        NbtString oldVal \<Rightarrow>
          (if \<not> truthy (property r) \<or> property r = Some k
           then map_option (Pair oldVal) (replacement r oldVal) else None)
      | _ \<Rightarrow> None)"

definition listChildHit :: "rule_args \<Rightarrow> tag \<Rightarrow> (string \<times> string) option" where
  "listChildHit r child =
     (case child of
        NbtString oldVal \<Rightarrow>
          (if \<not> truthy (property r)
           then map_option (Pair oldVal) (replacement r oldVal) else None)
      | _ \<Rightarrow> None)"

text \<open>
  \<^verbatim>\<open>replaceStringsDeep(tag, property, from, to, currentKey, useRegex, regex, pathParts, onReplace)\<close>.
  The arguments that every recursive call passes on unchanged (\<^verbatim>\<open>property\<close>, \<^verbatim>\<open>from\<close>,
  \<^verbatim>\<open>to\<close>, \<^verbatim>\<open>useRegex\<close>, \<^verbatim>\<open>regex\<close>, \<^verbatim>\<open>onReplace\<close>) are the record \<open>r\<close>; the
  parameter \<^verbatim>\<open>currentKey\<close> is never read by the source and is left out. The source
  mutates the tree in place and returns the number of changes; the model returns
  the tree after the call, the number of changes and the calls of the callback in
  order. \<open>replaceCompound\<close> is the loop over \<^verbatim>\<open>tag.keys()\<close>, \<open>replaceList\<close> the loop
  over \<^verbatim>\<open>i = 0 .. len - 1\<close> from index \<open>i\<close> on. (\<^verbatim>\<open>if (!child) continue\<close> never
  fires: a key of the map and an index below the length always have a tag.)
\<close>

fun replaceStringsDeep :: "rule_args \<Rightarrow> string list \<Rightarrow> tag \<Rightarrow> tag \<times> nat \<times> replace_event list"
  and replaceCompound ::
    "rule_args \<Rightarrow> string list \<Rightarrow> (string \<times> tag) list \<Rightarrow> (string \<times> tag) list \<times> nat \<times> replace_event list"
  and replaceList ::
    "rule_args \<Rightarrow> string list \<Rightarrow> nat \<Rightarrow> tag list \<Rightarrow> tag list \<times> nat \<times> replace_event list"
where
  "replaceStringsDeep r pathParts (NbtString v) = (NbtString v, 0, [])"
| "replaceStringsDeep r pathParts (NbtCompound entries) =
     (case replaceCompound r pathParts entries of
        (entries', changes, calls) \<Rightarrow> (NbtCompound entries', changes, calls))"
| "replaceStringsDeep r pathParts (NbtList items) =
     (case replaceList r pathParts 0 items of
        (items', changes, calls) \<Rightarrow> (NbtList items', changes, calls))"
| "replaceStringsDeep r pathParts (NbtOther x) = (NbtOther x, 0, [])"
| "replaceCompound r pathParts [] = ([], 0, [])"
| "replaceCompound r pathParts ((k, child) # rest) =
     (case compoundChildHit r k child of
        Some (oldVal, newVal) \<Rightarrow>
          (case replaceCompound r pathParts rest of
             (rest', changes, calls) \<Rightarrow>
               ((k, NbtString newVal) # rest', 1 + changes,
                notifyReplace r (pathParts @ [k]) oldVal newVal @ calls))
      | None \<Rightarrow>
          (case replaceStringsDeep r (pathParts @ [k]) child of
             (child', n, calls1) \<Rightarrow>
               (case replaceCompound r pathParts rest of
                  (rest', changes, calls2) \<Rightarrow>
                    ((k, child') # rest', n + changes, calls1 @ calls2))))"
| "replaceList r pathParts i [] = ([], 0, [])"
| "replaceList r pathParts i (child # rest) =
     (case listChildHit r child of
        Some (oldVal, newVal) \<Rightarrow>
          (case replaceList r pathParts (Suc i) rest of
             (rest', changes, calls) \<Rightarrow>
               (NbtString newVal # rest', 1 + changes,
                notifyReplace r (pathParts @ [indexSegment i]) oldVal newVal @ calls))
      | None \<Rightarrow>
          (case replaceStringsDeep r (pathParts @ [indexSegment i]) child of
             (child', n, calls1) \<Rightarrow>
               (case replaceList r pathParts (Suc i) rest of
                  (rest', changes, calls2) \<Rightarrow>
                    (child' # rest', n + changes, calls1 @ calls2))))"

section \<open>Observing a tree: its string leaves and where they are\<close>

text \<open>
  To state what the engine does to a tree, every String tag is listed with its
  location: the steps from the root, a key for a step into a compound and an index
  for a step into a list, in the order of a depth-first walk (compound entries in
  stored order, list elements by index).
\<close>

datatype seg = Key string | Idx nat

fun leaves :: "tag \<Rightarrow> (seg list \<times> string) list"
  and leavesCompound :: "(string \<times> tag) list \<Rightarrow> (seg list \<times> string) list"
  and leavesList :: "nat \<Rightarrow> tag list \<Rightarrow> (seg list \<times> string) list"
where
  "leaves (NbtString v) = [([], v)]"
| "leaves (NbtCompound entries) = leavesCompound entries"
| "leaves (NbtList items) = leavesList 0 items"
| "leaves (NbtOther x) = []"
| "leavesCompound [] = []"
| "leavesCompound ((k, child) # rest) =
     map (\<lambda>(p, v). (Key k # p, v)) (leaves child) @ leavesCompound rest"
| "leavesList i [] = []"
| "leavesList i (child # rest) =
     map (\<lambda>(p, v). (Idx i # p, v)) (leaves child) @ leavesList (Suc i) rest"

text \<open>The tree with every string value erased: what is left is its structure, its
  keys and its other payloads.\<close>

fun shape :: "tag \<Rightarrow> tag"
  and shapeCompound :: "(string \<times> tag) list \<Rightarrow> (string \<times> tag) list"
  and shapeList :: "tag list \<Rightarrow> tag list"
where
  "shape (NbtString v) = NbtString []"
| "shape (NbtCompound entries) = NbtCompound (shapeCompound entries)"
| "shape (NbtList items) = NbtList (shapeList items)"
| "shape (NbtOther x) = NbtOther x"
| "shapeCompound [] = []"
| "shapeCompound ((k, child) # rest) = (k, shape child) # shapeCompound rest"
| "shapeList [] = []"
| "shapeList (child # rest) = shape child # shapeList rest"

text \<open>A step as the tag path shows it: a key literally, an index as \<^verbatim>\<open>[i]\<close>.\<close>

fun segment :: "seg \<Rightarrow> string" where
  "segment (Key k) = k"
| "segment (Idx i) = indexSegment i"

text \<open>
  Whether the leaf at location \<open>p\<close> passes the property guard of the engine: the
  root itself never does; a leaf whose last step is a key \<open>k\<close> does when
  \<^verbatim>\<open>!property || property === k\<close>; a leaf whose last step is an index does when
  \<^verbatim>\<open>!property\<close>.
\<close>

definition eligible :: "string option \<Rightarrow> seg list \<Rightarrow> bool" where
  "eligible prop p =
     (case rev p of
        [] \<Rightarrow> False
      | Key k # _ \<Rightarrow> \<not> truthy prop \<or> prop = Some k
      | Idx i # _ \<Rightarrow> \<not> truthy prop)"

text \<open>The value the leaf at \<open>p\<close> holding \<open>v\<close> is replaced with, if it is replaced.\<close>

definition newValue :: "rule_args \<Rightarrow> seg list \<Rightarrow> string \<Rightarrow> string option" where
  "newValue r p v = (if eligible (property r) p then replacement r v else None)"

definition valueAfter :: "rule_args \<Rightarrow> seg list \<times> string \<Rightarrow> seg list \<times> string" where
  "valueAfter r = (\<lambda>(p, v). (p, case newValue r p v of Some v' \<Rightarrow> v' | None \<Rightarrow> v))"

text \<open>The replaced leaves of a tree in walk order: location, old value, new value.\<close>

definition hitAt :: "rule_args \<Rightarrow> seg list \<times> string \<Rightarrow> (seg list \<times> string \<times> string) option" where
  "hitAt r = (\<lambda>(p, v). map_option (\<lambda>v'. (p, v, v')) (newValue r p v))"

definition hits :: "rule_args \<Rightarrow> tag \<Rightarrow> (seg list \<times> string \<times> string) list" where
  "hits r t = List.map_filter (hitAt r) (leaves t)"

text \<open>The callback call that reports a hit, below the path prefix \<open>pathParts\<close>.\<close>

definition eventOf :: "string list \<Rightarrow> seg list \<times> string \<times> string \<Rightarrow> replace_event" where
  "eventOf pathParts = (\<lambda>(p, old, new). (join '' > '' (pathParts @ map segment p), old, new))"

section \<open>Probing a tree: \<^verbatim>\<open>logAllStringTags\<close>\<close>

text \<open>
  \<^verbatim>\<open>logAllStringTags(tag, pathParts, matchCtx)\<close> prints every String tag when debug
  logging is on and returns how many String tags it found. Its arguments
  \<^verbatim>\<open>pathParts\<close> and \<^verbatim>\<open>matchCtx\<close> only feed the printed line (the path and the
  \<^verbatim>\<open>[MATCH]\<close> mark); the returned count does not read them: a String tag returns
  1 whether or not it passes the property filter or matches.
\<close>

fun logAllStringTags :: "tag \<Rightarrow> nat"
  and logCompound :: "(string \<times> tag) list \<Rightarrow> nat"
  and logList :: "tag list \<Rightarrow> nat"
where
  "logAllStringTags (NbtString v) = 1"
| "logAllStringTags (NbtCompound entries) = logCompound entries"
| "logAllStringTags (NbtList items) = logList items"
| "logAllStringTags (NbtOther x) = 0"
| "logCompound [] = 0"
| "logCompound ((k, child) # rest) = logAllStringTags child + logCompound rest"
| "logList [] = 0"
| "logList (child # rest) = logAllStringTags child + logList rest"

section \<open>Processing one file: \<^verbatim>\<open>processFile\<close>\<close>

text \<open>
  The options of \<^verbatim>\<open>NbtFile.read\<close> that the program passes; \<open>None\<close> for a field
  that the object literal leaves out, and \<open>None\<close> for the whole record where the
  source passes \<^verbatim>\<open>undefined\<close>.
\<close>

datatype compression = Gzip | Zlib

record read_opts =
  bedrockHeader :: "bool option"
  littleEndian :: "bool option"
  compression :: "compression option"

type_synonym bytes = "nat list"

text \<open>
  What \<^verbatim>\<open>NbtFile.read\<close> returns: the root tag and whatever else the codec keeps
  to write the file back, which this program never reads.
\<close>

record nbt_file =
  root :: tag
  header :: nat

text \<open>
  The codec is not part of this repository. \<^verbatim>\<open>NbtFile.read(bytes, opts)\<close> and
  \<^verbatim>\<open>nbtFile.write()\<close> are parameters of the model; \<open>Inl\<close> is the message of the
  error they throw.
\<close>

type_synonym reader = "bytes \<Rightarrow> read_opts option \<Rightarrow> string + nbt_file"
type_synonym writer = "nbt_file \<Rightarrow> string + bytes"

text \<open>
  The file system as far as the program touches it: the content of every file, and
  the paths passed to \<^verbatim>\<open>fs.readFile\<close> and \<^verbatim>\<open>fs.writeFile\<close> in order. Reading a
  path without a file fails; writing always succeeds in the model.
\<close>

record world =
  files :: "string \<rightharpoonup> bytes"
  reads :: "string list"
  writes :: "string list"

text \<open>\<^verbatim>\<open>s.toLowerCase()\<close>, for the letters A to Z.\<close>

definition toLowerCase :: "string \<Rightarrow> string" where
  "toLowerCase s =
     map (\<lambda>c. case map_of (zip ''ABCDEFGHIJKLMNOPQRSTUVWXYZ'' ''abcdefghijklmnopqrstuvwxyz'') c of
                 Some l \<Rightarrow> l | None \<Rightarrow> c) s"

text \<open>\<^verbatim>\<open>s.endsWith(suffix)\<close>.\<close>

definition endsWith :: "string \<Rightarrow> string \<Rightarrow> bool" where
  "endsWith s suffix =
     (length suffix \<le> length s \<and> drop (length s - length suffix) s = suffix)"

definition bedrock :: "compression option \<Rightarrow> read_opts option" where
  "bedrock c = Some \<lparr>bedrockHeader = Some True, littleEndian = None, compression = c\<rparr>"

definition endian :: "bool \<Rightarrow> read_opts option" where
  "endian l = Some \<lparr>bedrockHeader = None, littleEndian = Some l, compression = None\<rparr>"

definition compressed :: "compression \<Rightarrow> read_opts option" where
  "compressed c = Some \<lparr>bedrockHeader = None, littleEndian = None, compression = Some c\<rparr>"

text \<open>The list \<^verbatim>\<open>attempts\<close> that \<^verbatim>\<open>processFile\<close> builds from the lower-cased
  path: label and options.\<close>

definition attempts :: "string \<Rightarrow> (string \<times> read_opts option) list" where
  "attempts lower =
     (if endsWith lower ''.mcstructure.gz''
      then [(''bedrock+gzip'', bedrock (Some Gzip))] else [])
     @ (if endsWith lower ''.mcstructure''
        then [(''bedrock'', bedrock None),
              (''bedrock+zlib'', bedrock (Some Zlib)),
              (''bedrock+gzip'', bedrock (Some Gzip))] else [])
     @ [(''auto'', None),
        (''littleEndian'', endian True),
        (''gzip'', compressed Gzip),
        (''zlib'', compressed Zlib)]"

text \<open>
  \<^verbatim>\<open>for (const a of attempts) { try { nbtFile = NbtFile.read(u8, a.opts); break; }
  catch (e) { lastErr = e; } }\<close>: the first attempt that does not throw, together
  with the last error caught before it.
\<close>

fun firstRead ::
  "reader \<Rightarrow> bytes \<Rightarrow> (string \<times> read_opts option) list \<Rightarrow> string option
     \<Rightarrow> string option \<times> nbt_file option" where
  "firstRead read u8 [] lastErr = (lastErr, None)"
| "firstRead read u8 (a # rest) lastErr =
     (case read u8 (snd a) of
        Inr nbtFile \<Rightarrow> (lastErr, Some nbtFile)
      | Inl e \<Rightarrow> firstRead read u8 rest (Some e))"

definition retryStrategies :: "(string \<times> read_opts option) list" where
  "retryStrategies =
     [(''auto'', None),
      (''bedrockHeader'', bedrock None),
      (''littleEndian'', endian True),
      (''javaLike'', endian False)]"

text \<open>
  The retry loop: the first strategy that reads without throwing and whose tree has
  a positive \<^verbatim>\<open>logAllStringTags\<close> count; a strategy that throws is skipped
  (\<^verbatim>\<open>catch (_) {}\<close>).
\<close>

fun retryRead :: "reader \<Rightarrow> bytes \<Rightarrow> (string \<times> read_opts option) list \<Rightarrow> nbt_file option" where
  "retryRead read buf [] = None"
| "retryRead read buf (strat # rest) =
     (case read buf (snd strat) of
        Inr tmp \<Rightarrow> (if logAllStringTags (root tmp) > 0 then Some tmp else retryRead read buf rest)
      | Inl e \<Rightarrow> retryRead read buf rest)"

text \<open>
  The first half of \<^verbatim>\<open>processFile\<close>, from the bytes to the \<^verbatim>\<open>nbtFile\<close> that
  goes into the replacement: the attempts, the throw when all of them failed, the
  count and, when the count is zero, the retry.
\<close>

definition parseFile :: "reader \<Rightarrow> bytes \<Rightarrow> string \<Rightarrow> string + nbt_file" where
  "parseFile read buf filePath =
     (case firstRead read buf (attempts (toLowerCase filePath)) None of
        (lastErr, None) \<Rightarrow>
          Inl (case lastErr of Some e \<Rightarrow> e | None \<Rightarrow> ''Failed to parse NBT file'')
      | (lastErr, Some nbtFile) \<Rightarrow>
          (if logAllStringTags (root nbtFile) = 0
           then (case retryRead read buf retryStrategies of
                   Some tmp \<Rightarrow> Inr tmp
                 | None \<Rightarrow> Inr nbtFile)
           else Inr nbtFile))"

text \<open>
  \<^verbatim>\<open>processFile(filePath, rIndex, propFilter, from, to, useRegex, regex, notify)\<close>.
  The rule parameters are the record \<open>r\<close> of the engine (\<^verbatim>\<open>onReplace\<close> is non-null
  exactly when \<^verbatim>\<open>notify\<close> is set); \<^verbatim>\<open>rIndex\<close> only feeds messages. The result is
  the world afterwards and either the error that the promise rejects with or
  \<^verbatim>\<open>{filesChanged, stringsChanged}\<close>.
\<close>

definition processFile ::
  "reader \<Rightarrow> writer \<Rightarrow> world \<Rightarrow> string \<Rightarrow> rule_args \<Rightarrow> world \<times> (string + nat \<times> nat)" where
  "processFile read write w filePath r =
     (let w1 = w\<lparr>reads := reads w @ [filePath]\<rparr> in
      case files w filePath of
        None \<Rightarrow> (w1, Inl ''ENOENT'')
      | Some buf \<Rightarrow>
          (case parseFile read buf filePath of
             Inl e \<Rightarrow> (w1, Inl e)
           | Inr nbtFile \<Rightarrow>
               (case replaceStringsDeep r [] (root nbtFile) of
                  (root', changed, calls) \<Rightarrow>
                    (if changed > 0
                     then (case write (nbtFile\<lparr>root := root'\<rparr>) of
                             Inl e \<Rightarrow> (w1, Inl e)
                           | Inr out \<Rightarrow>
                               (w1\<lparr>files := (files w1)(filePath \<mapsto> out),
                                   writes := writes w1 @ [filePath]\<rparr>,
                                Inr (1, changed)))
                     else (w1, Inr (0, 0))))))"

section \<open>The run: \<^verbatim>\<open>main\<close>\<close>

text \<open>
  A rule as the JSON configuration gives it; \<open>None\<close> is a missing field.
  \<open>rule_regex\<close> is \<^verbatim>\<open>rule.regex === true\<close>.
\<close>

record rule =
  rule_path :: "string option"
  rule_property :: "string option"
  rule_from :: "string option"
  rule_to :: "string option"
  rule_regex :: bool
  rule_flags :: "string option"
  rule_notify :: "bool option"

text \<open>
  What \<^verbatim>\<open>main\<close> takes from outside: the codec, \<^verbatim>\<open>new RegExp(pattern, flags)\<close>
  (\<open>None\<close> when it throws) and \<^verbatim>\<open>fast-glob\<close>, which lists the files that match a
  pattern.
\<close>

record env =
  env_read :: reader
  env_write :: writer
  env_compile :: "string \<Rightarrow> string \<Rightarrow> regexp option"
  env_glob :: "(string \<rightharpoonup> bytes) \<Rightarrow> string \<Rightarrow> string list"

text \<open>\<^verbatim>\<open>from.replace(/\u0008/g, "\\b")\<close>: every backspace character becomes a
  backslash followed by \<^verbatim>\<open>b\<close>.\<close>

definition normPattern :: "string \<Rightarrow> string" where
  "normPattern s = concat (map (\<lambda>c. if c = CHR 0x08 then [CHR 0x5C, CHR ''b''] else [c]) s)"

text \<open>How the run ends: \<^verbatim>\<open>process.exit(code)\<close>, or the final summary line with the
  two totals.\<close>

datatype outcome = Exit nat | Done nat nat

text \<open>
  The files of one rule. The source hands every file to the concurrency controller
  and waits for all of them; each job touches its own file only, so the model runs
  them one after the other in the order of the file list. A job that fails is
  reported and adds nothing to the totals.
\<close>

fun processFiles ::
  "env \<Rightarrow> rule_args \<Rightarrow> string list \<Rightarrow> world \<Rightarrow> nat \<times> nat \<Rightarrow> world \<times> nat \<times> nat" where
  "processFiles e r [] w totals = (w, totals)"
| "processFiles e r (filePath # rest) w (totalFiles, totalStrings) =
     (case processFile (env_read e) (env_write e) w filePath r of
        (w', Inr (filesChanged, stringsChanged)) \<Rightarrow>
          processFiles e r rest w' (totalFiles + filesChanged, totalStrings + stringsChanged)
      | (w', Inl err) \<Rightarrow> processFiles e r rest w' (totalFiles, totalStrings))"

text \<open>The check at the head of the loop body: \<^verbatim>\<open>!globPattern || rule.from ===
  undefined || rule.to === undefined\<close>.\<close>

definition missingRequired :: "rule \<Rightarrow> bool" where
  "missingRequired rule =
     (\<not> truthy (rule_path rule) \<or> rule_from rule = None \<or> rule_to rule = None)"

text \<open>The \<^verbatim>\<open>try\<close> block that compiles the pattern of a regex rule; \<open>None\<close> when
  \<^verbatim>\<open>new RegExp\<close> throws, \<open>Some None\<close> for a rule that is not a regex rule.\<close>

definition compileRule :: "env \<Rightarrow> rule \<Rightarrow> regexp option option" where
  "compileRule e rule =
     (if rule_regex rule
      then map_option Some
             (env_compile e
                (normPattern (case rule_from rule of Some s \<Rightarrow> s | None \<Rightarrow> []))
                (case rule_flags rule of Some f \<Rightarrow> f | None \<Rightarrow> ''g''))
      else Some None)"

text \<open>
  The loop \<^verbatim>\<open>for (let rIndex = 0; rIndex < rules.length; rIndex++)\<close> of \<^verbatim>\<open>main\<close>
  from the current rule on, with the global \<^verbatim>\<open>cfg.notify\<close>, the world and the
  totals so far.
\<close>

fun processRules ::
  "env \<Rightarrow> bool option \<Rightarrow> rule list \<Rightarrow> world \<Rightarrow> nat \<times> nat \<Rightarrow> world \<times> outcome" where
  "processRules e cfgNotify [] w (totalFiles, totalStrings) = (w, Done totalFiles totalStrings)"
| "processRules e cfgNotify (rule # rest) w totals =
     (if missingRequired rule then (w, Exit 1)
      else case compileRule e rule of
        None \<Rightarrow> (w, Exit 1)
      | Some rx \<Rightarrow>
          (let r = \<lparr>property = rule_property rule,
                    from' = (case rule_from rule of Some s \<Rightarrow> s | None \<Rightarrow> []),
                    to = (case rule_to rule of Some s \<Rightarrow> s | None \<Rightarrow> []),
                    useRegex = rule_regex rule,
                    regex = rx,
                    onReplace = (case rule_notify rule of Some b \<Rightarrow> b | None \<Rightarrow> cfgNotify = Some True)\<rparr>;
               matched = env_glob e (files w) (case rule_path rule of Some g \<Rightarrow> g | None \<Rightarrow> [])
           in case processFiles e r matched w totals of
                (w', totals') \<Rightarrow> processRules e cfgNotify rest w' totals'))"

text \<open>
  \<^verbatim>\<open>main\<close> after the command line is parsed: the rule list (\<^verbatim>\<open>cfg.rules\<close>, or the
  configuration itself as the only rule when it has no rule array), \<^verbatim>\<open>cfg.notify\<close>
  and the world. Debug output and the summary line are not modelled; the totals of
  the summary are in the outcome.
\<close>

definition main :: "env \<Rightarrow> bool option \<Rightarrow> rule list \<Rightarrow> world \<Rightarrow> world \<times> outcome" where
  "main e cfgNotify rules w = processRules e cfgNotify rules w (0, 0)"

section \<open>JavaScript numbers\<close>

text \<open>
  The controller averages durations and compares the averages after scaling by
  \<^verbatim>\<open>0.8\<close> and \<^verbatim>\<open>1.2\<close>. These are IEEE 754 double-precision operations: every
  result is the exact result rounded to the nearest double, ties to even. A finite
  double is a rational number, so the model computes with rationals and rounds
  after every operation. Doubles are taken with 53 significant bits and an
  unbounded exponent; the durations are integers of milliseconds, far from overflow
  and underflow.

  \<open>expo x\<close> is the binary exponent of a positive \<open>x\<close>: the \<open>e\<close> with
  \<open>2 powi e \<le> x < 2 powi (e + 1)\<close>.
\<close>

definition expo :: "rat \<Rightarrow> int" where
  "expo x =
     (if 1 \<le> x then int (floorlog 2 (nat \<lfloor>x\<rfloor>)) - 1
      else - int (floorlog 2 (nat (\<lceil>1 / x\<rceil> - 1))))"

text \<open>Rounding to the nearest integer, a tie to the even neighbour.\<close>

definition roundHalfEven :: "rat \<Rightarrow> int" where
  "roundHalfEven q =
     (let f = \<lfloor>q\<rfloor>; d = q - of_int f
      in if d < 1 / 2 then f
         else if 1 / 2 < d then f + 1
         else if even f then f else f + 1)"

text \<open>Rounding a positive rational to 53 significant bits.\<close>

definition roundPos :: "rat \<Rightarrow> rat" where
  "roundPos x = (let u = 2 powi (expo x - 52) in of_int (roundHalfEven (x / u)) * u)"

text \<open>The double nearest to a rational.\<close>

definition toDouble :: "rat \<Rightarrow> rat" where
  "toDouble x = (if x = 0 then 0 else if 0 < x then roundPos x else - roundPos (- x))"

definition fadd :: "rat \<Rightarrow> rat \<Rightarrow> rat" where
  "fadd a b = toDouble (a + b)"

definition fmul :: "rat \<Rightarrow> rat \<Rightarrow> rat" where
  "fmul a b = toDouble (a * b)"

definition fdiv :: "rat \<Rightarrow> rat \<Rightarrow> rat" where
  "fdiv a b = toDouble (a / b)"

section \<open>The adaptive concurrency controller\<close>

text \<open>
  The fields of \<^verbatim>\<open>AdaptiveConcurrencyController\<close> that the feedback loop reads or
  writes. The queue holds closures and promise callbacks and is not modelled.
  A concurrency level is a JavaScript number: \<^verbatim>\<open>main\<close> passes twice the number of
  CPUs or any \<^verbatim>\<open>cfg.maxConcurrency\<close> above 0, which need not be whole. The levels
  of a run are whole numbers, the ceiling, or the ceiling minus a whole number; for
  such doubles below \<open>2 ^ 53\<close> adding and subtracting 1 is exact, and the model
  adds and subtracts in the rationals. A duration is a difference of two
  \<^verbatim>\<open>Date.now()\<close> readings, an integer of milliseconds. \<^verbatim>\<open>maxTimeHistory\<close> and
  \<^verbatim>\<open>adjustmentInterval\<close> are set by the constructor and never assigned again.
\<close>

record controller =
  maxConcurrency :: rat
  currentConcurrency :: rat
  activeTasks :: nat
  recentTimes :: "int list"
  maxTimeHistory :: nat
  adjustmentInterval :: nat
  completedSinceAdjust :: nat

text \<open>\<^verbatim>\<open>constructor(initialConcurrency)\<close>. Halving a double and \<^verbatim>\<open>Math.floor\<close>,
  \<^verbatim>\<open>Math.max\<close> are exact.\<close>

definition newController :: "rat \<Rightarrow> controller" where
  "newController initialConcurrency =
     \<lparr>maxConcurrency = max 1 initialConcurrency,
      currentConcurrency = max 1 (of_int \<lfloor>initialConcurrency / 2\<rfloor>),
      activeTasks = 0,
      recentTimes = [],
      maxTimeHistory = 10,
      adjustmentInterval = 5,
      completedSinceAdjust = 0\<rparr>"

text \<open>\<^verbatim>\<open>xs.reduce((a, b) => a + b, 0)\<close> on numbers; a duration is an integer and as
  such a double.\<close>

definition sumTimes :: "int list \<Rightarrow> rat" where
  "sumTimes xs = foldl (\<lambda>a b. fadd a (of_int b)) 0 xs"

text \<open>\<^verbatim>\<open>avgTime\<close> and \<^verbatim>\<open>recentAvg\<close> of \<^verbatim>\<open>adjustConcurrency\<close>; \<^verbatim>\<open>slice(-3)\<close> is
  the last three samples. The source computes them behind the guard
  \<^verbatim>\<open>recentTimes.length < 3\<close> only, so the length is never zero where they are used.\<close>

definition avgTime :: "int list \<Rightarrow> rat" where
  "avgTime ts = fdiv (sumTimes ts) (of_nat (length ts))"

definition recentAvg :: "int list \<Rightarrow> rat" where
  "recentAvg ts = fdiv (sumTimes (drop (length ts - 3) ts)) 3"

text \<open>The two tests of \<^verbatim>\<open>adjustConcurrency\<close>: \<^verbatim>\<open>recentAvg < avgTime * 0.8\<close> and
  \<^verbatim>\<open>recentAvg > avgTime * 1.2\<close>. The literals are the doubles nearest to 4/5 and
  6/5.\<close>

definition faster :: "int list \<Rightarrow> bool" where
  "faster ts = (recentAvg ts < fmul (avgTime ts) (toDouble (4 / 5)))"

definition slower :: "int list \<Rightarrow> bool" where
  "slower ts = (recentAvg ts > fmul (avgTime ts) (toDouble (6 / 5)))"

definition adjustConcurrency :: "controller \<Rightarrow> controller" where
  "adjustConcurrency c =
     (if length (recentTimes c) < 3 then c
      else if faster (recentTimes c) \<and> currentConcurrency c < maxConcurrency c
      then c\<lparr>currentConcurrency := min (maxConcurrency c) (currentConcurrency c + 1)\<rparr>
      else if slower (recentTimes c) \<and> currentConcurrency c > 1
      then c\<lparr>currentConcurrency := max 1 (currentConcurrency c - 1)\<rparr>
      else c)"

text \<open>The first three lines of \<^verbatim>\<open>recordCompletion\<close>: push the duration and drop
  the oldest sample when the history is longer than \<^verbatim>\<open>maxTimeHistory\<close>.\<close>

definition pushTime :: "int \<Rightarrow> controller \<Rightarrow> controller" where
  "pushTime duration c =
     (let ts = recentTimes c @ [duration]
      in c\<lparr>recentTimes := (if length ts > maxTimeHistory c then tl ts else ts)\<rparr>)"

definition recordCompletion :: "int \<Rightarrow> controller \<Rightarrow> controller" where
  "recordCompletion duration c =
     (let c1 = pushTime duration c;
          c2 = c1\<lparr>completedSinceAdjust := completedSinceAdjust c1 + 1\<rparr>
      in if completedSinceAdjust c2 \<ge> adjustmentInterval c2
         then (adjustConcurrency c2)\<lparr>completedSinceAdjust := 0\<rparr>
         else c2)"

text \<open>The invariant of the working limit.\<close>

definition withinLimits :: "controller \<Rightarrow> bool" where
  "withinLimits c = (1 \<le> currentConcurrency c \<and> currentConcurrency c \<le> maxConcurrency c)"

section \<open>Notions used to state the properties of a run\<close>

text \<open>What a read strategy yields on the bytes of a file, when it does not throw.\<close>

definition readOk :: "reader \<Rightarrow> bytes \<Rightarrow> string \<times> read_opts option \<Rightarrow> nbt_file option" where
  "readOk read buf strat = (case read buf (snd strat) of Inr tmp \<Rightarrow> Some tmp | Inl e \<Rightarrow> None)"

text \<open>A rule on which \<^verbatim>\<open>main\<close> calls \<^verbatim>\<open>process.exit(1)\<close>: a required field is
  missing, or it is a regex rule whose pattern and flags do not compile.\<close>

definition invalidRule :: "env \<Rightarrow> rule \<Rightarrow> bool" where
  "invalidRule e rule = (missingRequired rule \<or> compileRule e rule = None)"



text \<open>The rolling history after one more duration: the oldest sample leaves when
  the history is full.\<close>

definition rolled :: "controller \<Rightarrow> int \<Rightarrow> int list" where
  "rolled c duration =
     (if length (recentTimes c) < maxTimeHistory c then recentTimes c @ [duration]
      else tl (recentTimes c @ [duration]))"

section \<open>Example inputs\<close>

text \<open>The rule of the documentation: replace \<^verbatim>\<open>west\<close> by \<^verbatim>\<open>north\<close>, exact
  matching, with a property filter and with or without notification.\<close>

definition ruleWest :: "string option \<Rightarrow> bool \<Rightarrow> rule_args" where
  "ruleWest prop notify =
     \<lparr>property = prop, from' = ''west'', to = ''north'', useRegex = False, regex = None,
      onReplace = notify\<rparr>"

definition docTree :: tag where
  "docTree = NbtCompound
     [(''facing'', NbtString ''west''),
      (''direction'', NbtString ''west''),
      (''name'', NbtString ''northwest''),
      (''list'', NbtList [NbtString ''west'', NbtString ''north'', NbtOther 7])]"

text \<open>
  A regular expression that is a caret followed by a literal text \<open>pre\<close>, as
  \<^verbatim>\<open>new RegExp("^" + pre, "g")\<close> compiles it, under \<^verbatim>\<open>replace\<close> with a template
  without \<^verbatim>\<open>$\<close>: the only possible match is \<open>pre\<close> at index 0.
\<close>

definition anchoredLiteral :: "string \<Rightarrow> regexp" where
  "anchoredLiteral pre template v =
     (if take (length pre) v = pre then template @ drop (length pre) v else v)"

text \<open>The rule \<^verbatim>\<open>{from: "^ns:", to: "", regex: true}\<close>, which strips a namespace
  prefix.\<close>

definition ruleStripNs :: rule_args where
  "ruleStripNs =
     \<lparr>property = None, from' = ''^ns:'', to = [], useRegex = True,
      regex = Some (anchoredLiteral ''ns:''), onReplace = False\<rparr>"

text \<open>A tree with one namespaced value.\<close>

definition nsTree :: tag where
  "nsTree = NbtCompound [(''id'', NbtString ''ns:oak''), (''name'', NbtString ''oak'')]"

text \<open>
  A codec for the examples. Read with default options it finds a compound with one
  string under \<^verbatim>\<open>direction\<close>; read with the Bedrock header it finds one string
  under \<^verbatim>\<open>facing\<close>; every other option set fails. Writing yields two bytes.
\<close>

definition exampleReader :: reader where
  "exampleReader buf opts =
     (case opts of
        None \<Rightarrow> Inr \<lparr>root = NbtCompound [(''direction'', NbtString ''west'')], header = 0\<rparr>
      | Some opt \<Rightarrow>
          (if bedrockHeader opt = Some True
           then Inr \<lparr>root = NbtCompound [(''facing'', NbtString ''west'')], header = 1\<rparr>
           else Inl ''unexpected header''))"

text \<open>The same codec, except that the default options find an empty compound.\<close>

definition emptyFirstReader :: reader where
  "emptyFirstReader buf opts =
     (case opts of
        None \<Rightarrow> Inr \<lparr>root = NbtCompound [], header = 0\<rparr>
      | Some opt \<Rightarrow> exampleReader buf opts)"

definition exampleWriter :: writer where
  "exampleWriter nbtFile = Inr [header nbtFile, logAllStringTags (root nbtFile)]"

text \<open>An environment in which no pattern compiles and the glob \<^verbatim>\<open>**/*.nbt\<close> matches
  the one file \<^verbatim>\<open>a.nbt\<close>.\<close>

definition exampleEnv :: env where
  "exampleEnv =
     \<lparr>env_read = exampleReader, env_write = exampleWriter,
      env_compile = (\<lambda>pattern flags. None),
      env_glob = (\<lambda>fs pattern. if pattern = ''**/*.nbt'' then [''a.nbt''] else [])\<rparr>"

definition exampleWorld :: world where
  "exampleWorld = \<lparr>files = [''a.nbt'' \<mapsto> [10, 0]], reads = [], writes = []\<rparr>"

text \<open>The rule \<^verbatim>\<open>{path: "**/*.nbt", from: "west", to: ...}\<close> with the given \<^verbatim>\<open>to\<close>
  field, which may be missing.\<close>

definition westRule :: "string option \<Rightarrow> rule" where
  "westRule toField =
     \<lparr>rule_path = Some ''**/*.nbt'', rule_property = None, rule_from = Some ''west'',
      rule_to = toField, rule_regex = False, rule_flags = None, rule_notify = None\<rparr>"

text \<open>A controller with ceiling 8 that has seen nine completions, four of them since
  the last adjustment: seven slow ones and two fast ones.\<close>

definition busyController :: controller where
  "busyController =
     (newController 8)
       \<lparr>recentTimes := [100, 100, 100, 100, 100, 100, 100, 10, 10],
        completedSinceAdjust := 4\<rparr>"

text \<open>The same with seven fast completions followed by two slow ones.\<close>

definition slowController :: controller where
  "slowController =
     (newController 8)
       \<lparr>recentTimes := [10, 10, 10, 10, 10, 10, 10, 100, 100],
        completedSinceAdjust := 4\<rparr>"

text \<open>A controller with ceiling 8 whose next completion, of duration 0, puts the
  recent mean exactly on the lower edge of the band.\<close>

definition edgeController :: controller where
  "edgeController =
     (newController 8)\<lparr>recentTimes := [14, 25, 9, 5, 27], completedSinceAdjust := 4\<rparr>"

text \<open>A controller with the ceiling 2.5 whose working limit has grown to 2.\<close>

definition fractionalController :: controller where
  "fractionalController =
     (newController (5 / 2))
       \<lparr>currentConcurrency := 2,
        recentTimes := [100, 100, 100, 100, 100, 100, 100, 10, 10],
        completedSinceAdjust := 4\<rparr>"

text \<open>A controller whose clock has stepped back during every task.\<close>

definition backwardsController :: controller where
  "backwardsController =
     (newController 8)\<lparr>recentTimes := [- 10, - 10, - 10, - 10], completedSinceAdjust := 4\<rparr>"

section \<open>Properties of the matcher/replacer\<close>

lemma leaves_nonroot:
  "(\<forall>v. t \<noteq> NbtString v) \<Longrightarrow> (p, v) \<in> set (leaves t) \<Longrightarrow> p \<noteq> []"
  "(p, v) \<in> set (leavesCompound es) \<Longrightarrow> p \<noteq> []"
  "(p, v) \<in> set (leavesList i xs) \<Longrightarrow> p \<noteq> []"
  by (induction t and es and i xs rule: leaves_leavesCompound_leavesList.induct) auto

lemma eligible_Cons: "p \<noteq> [] \<Longrightarrow> eligible prop (s # p) = eligible prop p"
  by (cases p rule: rev_cases) (auto simp: eligible_def)

lemma eligible_Key: "eligible prop [Key k] = (\<not> truthy prop \<or> prop = Some k)"
  by (simp add: eligible_def)

lemma eligible_Idx: "eligible prop [Idx i] = (\<not> truthy prop)"
  by (simp add: eligible_def)

lemma newValue_root [simp]: "newValue r [] v = None"
  by (simp add: newValue_def eligible_def)

lemma valueAfter_root [simp]: "valueAfter r ([], v) = ([], v)"
  by (simp add: valueAfter_def newValue_def eligible_def)

lemma hitAt_root [simp]: "hitAt r ([], v) = None"
  by (simp add: hitAt_def newValue_def eligible_def)

lemma newValue_Cons: "p \<noteq> [] \<Longrightarrow> newValue r (s # p) v = newValue r p v"
  by (simp add: newValue_def eligible_Cons)

lemma compoundChildHit_Some:
  "compoundChildHit r k child = Some (old, new) \<longleftrightarrow>
     child = NbtString old \<and> newValue r [Key k] old = Some new"
  by (cases child) (auto simp: compoundChildHit_def newValue_def eligible_Key)

lemma compoundChildHit_None_String:
  "compoundChildHit r k (NbtString v) = None \<longleftrightarrow> newValue r [Key k] v = None"
  by (auto simp: compoundChildHit_def newValue_def eligible_Key)

lemma listChildHit_Some:
  "listChildHit r child = Some (old, new) \<longleftrightarrow>
     child = NbtString old \<and> newValue r [Idx i] old = Some new"
  by (cases child) (auto simp: listChildHit_def newValue_def eligible_Idx)

lemma listChildHit_None_String:
  "listChildHit r (NbtString v) = None \<longleftrightarrow> newValue r [Idx i] v = None"
  by (auto simp: listChildHit_def newValue_def eligible_Idx)

lemma valueAfter_under:
  assumes "\<And>v. child = NbtString v \<Longrightarrow> newValue r [s] v = None"
  shows "map (valueAfter r) (map (\<lambda>(p, v). (s # p, v)) (leaves child))
           = map (\<lambda>(p, v). (s # p, v)) (map (valueAfter r) (leaves child))"
proof (cases child)
  case (NbtString v)
  with assms show ?thesis by (simp add: valueAfter_def)
next
  case (NbtCompound es)
  have "\<And>p v. (p, v) \<in> set (leaves child) \<Longrightarrow> p \<noteq> []"
    using NbtCompound leaves_nonroot(1) by blast
  then show ?thesis
    by (auto simp: valueAfter_def newValue_Cons)
next
  case (NbtList xs)
  have "\<And>p v. (p, v) \<in> set (leaves child) \<Longrightarrow> p \<noteq> []"
    using NbtList leaves_nonroot(1) by blast
  then show ?thesis
    by (auto simp: valueAfter_def newValue_Cons)
next
  case (NbtOther x)
  then show ?thesis by simp
qed

lemma map_filter_map_option:
  "(\<And>x. x \<in> set xs \<Longrightarrow> f (g x) = map_option h (f' x)) \<Longrightarrow>
     List.map_filter f (map g xs) = map h (List.map_filter f' xs)"
proof (induction xs)
  case Nil
  show ?case by (simp add: List.map_filter_simps)
next
  case (Cons x xs)
  then have "f (g x) = map_option h (f' x)" by simp
  with Cons show ?case
    by (cases "f' x") (simp_all add: List.map_filter_simps)
qed

lemma hitAt_under:
  assumes "\<And>v. child = NbtString v \<Longrightarrow> newValue r [s] v = None"
  shows "List.map_filter (hitAt r) (map (\<lambda>(p, v). (s # p, v)) (leaves child))
           = map (\<lambda>(p, old, new). (s # p, old, new)) (List.map_filter (hitAt r) (leaves child))"
proof (rule map_filter_map_option)
  fix x assume x: "x \<in> set (leaves child)"
  obtain p v where pv: "x = (p, v)" by (cases x)
  show "hitAt r (case x of (p, v) \<Rightarrow> (s # p, v))
          = map_option (\<lambda>(p, old, new). (s # p, old, new)) (hitAt r x)"
  proof (cases "p = []")
    case True
    with x pv have "child = NbtString v"
      using leaves_nonroot(1) [of child p v] by (cases child) auto
    with assms True pv show ?thesis by (simp add: hitAt_def)
  next
    case False
    then show ?thesis
      by (cases "newValue r p v") (simp_all add: pv hitAt_def newValue_Cons)
  qed
qed

lemma eventOf_under:
  "map (eventOf (pp @ [segment s])) hs = map (eventOf pp) (map (\<lambda>(p, old, new). (s # p, old, new)) hs)"
  by (induction hs) (auto simp: eventOf_def)

lemma engine_leaves:
  "leaves (fst (replaceStringsDeep r pp t)) = map (valueAfter r) (leaves t)"
  "leavesCompound (fst (replaceCompound r pp es)) = map (valueAfter r) (leavesCompound es)"
  "leavesList i (fst (replaceList r pp i xs)) = map (valueAfter r) (leavesList i xs)"
proof (induction r pp t and r pp es and r pp i xs rule: replaceStringsDeep_replaceCompound_replaceList.induct)
  case (6 r pathParts k child rest)
  obtain rest' m c2 where rr: "replaceCompound r pathParts rest = (rest', m, c2)"
    by (cases "replaceCompound r pathParts rest")
  show ?case
  proof (cases "compoundChildHit r k child")
    case None
    obtain child' n c1 where rc: "replaceStringsDeep r (pathParts @ [k]) child = (child', n, c1)"
      by (cases "replaceStringsDeep r (pathParts @ [k]) child")
    have under: "\<And>v. child = NbtString v \<Longrightarrow> newValue r [Key k] v = None"
      using None by (simp add: compoundChildHit_None_String)
    have 1: "leaves child' = map (valueAfter r) (leaves child)"
      using "6.IH"(1) [OF None] rc by simp
    have 2: "leavesCompound rest' = map (valueAfter r) (leavesCompound rest)"
      using "6.IH"(2) [OF None rc [symmetric] refl] rr by simp
    show ?thesis
      using valueAfter_under [OF under] by (simp add: None rc rr 1 2)
  next
    case (Some a)
    obtain old new where a: "a = (old, new)" by (cases a)
    with Some have c: "child = NbtString old" "newValue r [Key k] old = Some new"
      by (simp_all add: compoundChildHit_Some)
    have 2: "leavesCompound rest' = map (valueAfter r) (leavesCompound rest)"
      using "6.IH"(3) [OF Some [unfolded a] refl] rr by simp
    show ?thesis
      using Some by (simp add: a rr 2 c valueAfter_def)
  qed
next
  case (8 r pathParts i child rest)
  obtain rest' m c2 where rr: "replaceList r pathParts (Suc i) rest = (rest', m, c2)"
    by (cases "replaceList r pathParts (Suc i) rest")
  show ?case
  proof (cases "listChildHit r child")
    case None
    obtain child' n c1 where rc: "replaceStringsDeep r (pathParts @ [indexSegment i]) child = (child', n, c1)"
      by (cases "replaceStringsDeep r (pathParts @ [indexSegment i]) child")
    have under: "\<And>v. child = NbtString v \<Longrightarrow> newValue r [Idx i] v = None"
      using None by (simp add: listChildHit_None_String [of r _ i])
    have 1: "leaves child' = map (valueAfter r) (leaves child)"
      using "8.IH"(1) [OF None] rc by simp
    have 2: "leavesList (Suc i) rest' = map (valueAfter r) (leavesList (Suc i) rest)"
      using "8.IH"(2) [OF None rc [symmetric] refl] rr by simp
    show ?thesis
      using valueAfter_under [OF under] by (simp add: None rc rr 1 2)
  next
    case (Some a)
    obtain old new where a: "a = (old, new)" by (cases a)
    with Some have c: "child = NbtString old" "newValue r [Idx i] old = Some new"
      by (simp_all add: listChildHit_Some [of r _ _ _ i])
    have 2: "leavesList (Suc i) rest' = map (valueAfter r) (leavesList (Suc i) rest)"
      using "8.IH"(3) [OF Some [unfolded a] refl] rr by simp
    show ?thesis
      using Some by (simp add: a rr 2 c valueAfter_def)
  qed
qed (auto split: prod.splits)

lemma map_filter_append:
  "List.map_filter f (xs @ ys) = List.map_filter f xs @ List.map_filter f ys"
  by (simp add: List.map_filter_def)

lemma engine_hits:
  "snd (replaceStringsDeep r pp t) =
     (length (List.map_filter (hitAt r) (leaves t)),
      if onReplace r then map (eventOf pp) (List.map_filter (hitAt r) (leaves t)) else [])"
  "snd (replaceCompound r pp es) =
     (length (List.map_filter (hitAt r) (leavesCompound es)),
      if onReplace r then map (eventOf pp) (List.map_filter (hitAt r) (leavesCompound es)) else [])"
  "snd (replaceList r pp i xs) =
     (length (List.map_filter (hitAt r) (leavesList i xs)),
      if onReplace r then map (eventOf pp) (List.map_filter (hitAt r) (leavesList i xs)) else [])"
proof (induction r pp t and r pp es and r pp i xs rule: replaceStringsDeep_replaceCompound_replaceList.induct)
  case (1 r pathParts v)
  show ?case by simp
next
  case (2 r pathParts entries)
  then show ?case by (auto split: prod.splits)
next
  case (3 r pathParts items)
  then show ?case by (auto split: prod.splits)
next
  case (4 r pathParts x)
  show ?case by simp
next
  case (5 r pathParts)
  show ?case by simp
next
  case (6 r pathParts k child rest)
  obtain rest' m c2 where rr: "replaceCompound r pathParts rest = (rest', m, c2)"
    by (cases "replaceCompound r pathParts rest")
  show ?case
  proof (cases "compoundChildHit r k child")
    case None
    obtain child' n c1 where rc: "replaceStringsDeep r (pathParts @ [k]) child = (child', n, c1)"
      by (cases "replaceStringsDeep r (pathParts @ [k]) child")
    have under: "\<And>v. child = NbtString v \<Longrightarrow> newValue r [Key k] v = None"
      using None by (simp add: compoundChildHit_None_String)
    have 1: "(n, c1) = (length (List.map_filter (hitAt r) (leaves child)),
          if onReplace r then map (eventOf (pathParts @ [k])) (List.map_filter (hitAt r) (leaves child)) else [])"
      using "6.IH"(1) [OF None] rc by simp
    have 2: "(m, c2) = (length (List.map_filter (hitAt r) (leavesCompound rest)),
          if onReplace r then map (eventOf pathParts) (List.map_filter (hitAt r) (leavesCompound rest)) else [])"
      using "6.IH"(2) [OF None rc [symmetric] refl] rr by simp
    show ?thesis
      using 1 2 eventOf_under [of pathParts "Key k"]
      by (simp add: None rc rr map_filter_append hitAt_under [OF under])
  next
    case (Some a)
    obtain old new where a: "a = (old, new)" by (cases a)
    with Some have c: "child = NbtString old" "newValue r [Key k] old = Some new"
      by (simp_all add: compoundChildHit_Some)
    have 2: "(m, c2) = (length (List.map_filter (hitAt r) (leavesCompound rest)),
          if onReplace r then map (eventOf pathParts) (List.map_filter (hitAt r) (leavesCompound rest)) else [])"
      using "6.IH"(3) [OF Some [unfolded a] refl] rr by simp
    show ?thesis
      using Some 2
      by (simp add: a rr c map_filter_append hitAt_def notifyReplace_def eventOf_def)
  qed
next
  case (7 r pathParts i)
  show ?case by simp
next
  case (8 r pathParts i child rest)
  obtain rest' m c2 where rr: "replaceList r pathParts (Suc i) rest = (rest', m, c2)"
    by (cases "replaceList r pathParts (Suc i) rest")
  show ?case
  proof (cases "listChildHit r child")
    case None
    obtain child' n c1 where rc: "replaceStringsDeep r (pathParts @ [indexSegment i]) child = (child', n, c1)"
      by (cases "replaceStringsDeep r (pathParts @ [indexSegment i]) child")
    have under: "\<And>v. child = NbtString v \<Longrightarrow> newValue r [Idx i] v = None"
      using None by (simp add: listChildHit_None_String [of r _ i])
    have 1: "(n, c1) = (length (List.map_filter (hitAt r) (leaves child)),
          if onReplace r then map (eventOf (pathParts @ [indexSegment i])) (List.map_filter (hitAt r) (leaves child)) else [])"
      using "8.IH"(1) [OF None] rc by simp
    have 2: "(m, c2) = (length (List.map_filter (hitAt r) (leavesList (Suc i) rest)),
          if onReplace r then map (eventOf pathParts) (List.map_filter (hitAt r) (leavesList (Suc i) rest)) else [])"
      using "8.IH"(2) [OF None rc [symmetric] refl] rr by simp
    show ?thesis
      using 1 2 eventOf_under [of pathParts "Idx i"]
      by (simp add: None rc rr map_filter_append hitAt_under [OF under])
  next
    case (Some a)
    obtain old new where a: "a = (old, new)" by (cases a)
    with Some have c: "child = NbtString old" "newValue r [Idx i] old = Some new"
      by (simp_all add: listChildHit_Some [of r _ _ _ i])
    have 2: "(m, c2) = (length (List.map_filter (hitAt r) (leavesList (Suc i) rest)),
          if onReplace r then map (eventOf pathParts) (List.map_filter (hitAt r) (leavesList (Suc i) rest)) else [])"
      using "8.IH"(3) [OF Some [unfolded a] refl] rr by simp
    show ?thesis
      using Some 2
      by (simp add: a rr c map_filter_append hitAt_def notifyReplace_def eventOf_def)
  qed
qed

lemma engine_shape:
  "shape (fst (replaceStringsDeep r pp t)) = shape t"
  "shapeCompound (fst (replaceCompound r pp es)) = shapeCompound es"
  "shapeList (fst (replaceList r pp i xs)) = shapeList xs"
proof (induction r pp t and r pp es and r pp i xs rule: replaceStringsDeep_replaceCompound_replaceList.induct)
  case (6 r pathParts k child rest)
  show ?case
  proof (cases "compoundChildHit r k child")
    case None
    with "6.IH"(1,2) show ?thesis by (auto split: prod.splits)
  next
    case (Some a)
    obtain old new where a: "a = (old, new)" by (cases a)
    with Some have c: "child = NbtString old" by (simp add: compoundChildHit_Some)
    with Some a "6.IH"(3) show ?thesis by (auto split: prod.splits)
  qed
next
  case (8 r pathParts i child rest)
  show ?case
  proof (cases "listChildHit r child")
    case None
    with "8.IH"(1,2) show ?thesis by (auto split: prod.splits)
  next
    case (Some a)
    obtain old new where a: "a = (old, new)" by (cases a)
    with Some have c: "child = NbtString old" by (simp add: listChildHit_Some [of r _ _ _ 0])
    with Some a "8.IH"(3) show ?thesis by (auto split: prod.splits)
  qed
qed (auto split: prod.splits)

lemma engine_no_change:
  "fst (snd (replaceStringsDeep r pp t)) = 0 \<Longrightarrow> fst (replaceStringsDeep r pp t) = t"
  "fst (snd (replaceCompound r pp es)) = 0 \<Longrightarrow> fst (replaceCompound r pp es) = es"
  "fst (snd (replaceList r pp i xs)) = 0 \<Longrightarrow> fst (replaceList r pp i xs) = xs"
proof (induction r pp t and r pp es and r pp i xs rule: replaceStringsDeep_replaceCompound_replaceList.induct)
  case (6 r pathParts k child rest)
  show ?case
  proof (cases "compoundChildHit r k child")
    case None
    with "6.IH"(1,2) "6.prems" show ?thesis by (auto split: prod.splits)
  next
    case (Some a)
    with "6.prems" show ?thesis by (auto split: prod.splits)
  qed
next
  case (8 r pathParts i child rest)
  show ?case
  proof (cases "listChildHit r child")
    case None
    with "8.IH"(1,2) "8.prems" show ?thesis by (auto split: prod.splits)
  next
    case (Some a)
    with "8.prems" show ?thesis by (auto split: prod.splits)
  qed
qed (auto split: prod.splits)

lemma replacement_exact:
  "\<not> useRegex r \<Longrightarrow> replacement r v = (if v = from' r then Some (to r) else None)"
  by (simp add: replacement_def)

lemma hits_Nil_result:
  assumes "hits r t = []"
  shows "replaceStringsDeep r pp t = (t, 0, [])"
proof -
  have s: "snd (replaceStringsDeep r pp t) = (0, [])"
    using engine_hits(1) [of r pp t] assms by (simp add: hits_def)
  then have "fst (replaceStringsDeep r pp t) = t"
    using engine_no_change(1) [of r pp t] by simp
  with s show ?thesis by (simp add: prod_eq_iff)
qed

lemmas engine_eval =
  compoundChildHit_def listChildHit_def truthy_def replacement_def notifyReplace_def
  indexSegment_def decimal.simps eligible_def newValue_def valueAfter_def hitAt_def hits_def
  eventOf_def

subsection \<open>Whole-value matching\<close>

text \<open>
  C1. Under a rule that is not a pattern rule, the engine keeps every String leaf in
  its place and gives it the value \<open>to\<close> exactly when the leaf passes the property
  guard and its whole value equals \<open>from\<close>; every other leaf keeps its value, in
  particular one whose value only contains \<open>from\<close>. The number of changes it
  returns is the number of such leaves, and nothing but string values changes in
  the tree.
\<close>

theorem exact_match_whole_value:
  assumes "\<not> useRegex r"
  shows "leaves (fst (replaceStringsDeep r pathParts t))
           = map (\<lambda>(p, v). (p, if eligible (property r) p \<and> v = from' r then to r else v)) (leaves t)
         \<and> fst (snd (replaceStringsDeep r pathParts t))
           = length (filter (\<lambda>(p, v). eligible (property r) p \<and> v = from' r) (leaves t))
         \<and> shape (fst (replaceStringsDeep r pathParts t)) = shape t"
proof -
  have v: "valueAfter r = (\<lambda>(p, v). (p, if eligible (property r) p \<and> v = from' r then to r else v))"
    using assms by (auto simp: valueAfter_def newValue_def replacement_exact fun_eq_iff split: if_splits)
  have "\<And>x. (hitAt r x \<noteq> None) = (case x of (p, v) \<Rightarrow> eligible (property r) p \<and> v = from' r)"
    using assms by (auto simp: hitAt_def newValue_def replacement_exact split: if_splits)
  then have "length (List.map_filter (hitAt r) (leaves t))
          = length (filter (\<lambda>(p, v). eligible (property r) p \<and> v = from' r) (leaves t))"
    by (simp add: List.map_filter_def)
  then show ?thesis
    using engine_leaves(1) [of r pathParts t] engine_hits(1) [of r pathParts t]
      engine_shape(1) [of r pathParts t]
    by (simp add: v)
qed

text \<open>The rule \<^verbatim>\<open>west\<close> to \<^verbatim>\<open>north\<close> on a tree that also holds
  \<^verbatim>\<open>northwest\<close>: the three leaves equal to \<^verbatim>\<open>west\<close> change, \<^verbatim>\<open>northwest\<close> stays.\<close>

theorem exact_match_whole_value_witness:
  "\<not> useRegex (ruleWest None False) \<and>
   leaves (fst (replaceStringsDeep (ruleWest None False) [] docTree))
     = [([Key ''facing''], ''north''), ([Key ''direction''], ''north''),
        ([Key ''name''], ''northwest''),
        ([Key ''list'', Idx 0], ''north''), ([Key ''list'', Idx 1], ''north'')]"
  using exact_match_whole_value [of "ruleWest None False" "[]" docTree]
  by (simp add: ruleWest_def docTree_def engine_eval)

subsection \<open>The property filter\<close>

text \<open>
  C2, as the code has it. Every String leaf stays in place, and the rule is applied
  to it exactly when it passes the guard: a leaf stored under key \<open>k\<close> of a
  compound when the property filter is absent, is the empty string or equals \<open>k\<close>;
  an element of a list when the property filter is absent or the empty string; the
  root never. (\<^verbatim>\<open>!property\<close> is true for \<^verbatim>\<open>null\<close> and for the empty string.)
  So a rule with a non-empty property filter changes no list element, and changes
  a keyed leaf under that key only.
\<close>

theorem property_filter_eligibility:
  "leaves (fst (replaceStringsDeep r pathParts t)) =
     map (\<lambda>(p, v).
            (p, if (case rev p of
                      [] \<Rightarrow> False
                    | Key k # _ \<Rightarrow> property r = None \<or> property r = Some [] \<or> property r = Some k
                    | Idx i # _ \<Rightarrow> property r = None \<or> property r = Some [])
                then (case replacement r v of Some v' \<Rightarrow> v' | None \<Rightarrow> v)
                else v))
         (leaves t)"
proof -
  have "valueAfter r = (\<lambda>(p, v).
            (p, if (case rev p of
                      [] \<Rightarrow> False
                    | Key k # _ \<Rightarrow> property r = None \<or> property r = Some [] \<or> property r = Some k
                    | Idx i # _ \<Rightarrow> property r = None \<or> property r = Some [])
                then (case replacement r v of Some v' \<Rightarrow> v' | None \<Rightarrow> v)
                else v))"
    by (auto simp: valueAfter_def newValue_def eligible_def truthy_def fun_eq_iff
          split: list.splits seg.splits option.splits)
  then show ?thesis
    using engine_leaves(1) [of r pathParts t] by simp
qed

text \<open>The scenario of the documentation: with the filter \<^verbatim>\<open>facing\<close> only the leaf
  under \<^verbatim>\<open>facing\<close> changes; \<^verbatim>\<open>direction\<close> and the list element keep \<^verbatim>\<open>west\<close>.\<close>

theorem property_filter_eligibility_witness:
  "leaves (fst (replaceStringsDeep (ruleWest (Some ''facing'') False) [] docTree))
     = [([Key ''facing''], ''north''), ([Key ''direction''], ''west''),
        ([Key ''name''], ''northwest''),
        ([Key ''list'', Idx 0], ''west''), ([Key ''list'', Idx 1], ''north'')]"
  using property_filter_eligibility [of "ruleWest (Some ''facing'') False" "[]" docTree]
  by (simp add: ruleWest_def docTree_def engine_eval)

text \<open>
  C2 as stated fails for a property filter that is present but empty: the rule
  \<^verbatim>\<open>{property: "", from: "west", to: "north"}\<close> has a property filter, and it
  changes an element of a list.
\<close>

theorem empty_property_changes_list_element:
  "property (ruleWest (Some []) False) \<noteq> None \<and>
   fst (replaceStringsDeep (ruleWest (Some []) False) [] (NbtList [NbtString ''west'']))
     = NbtList [NbtString ''north'']"
  by (simp add: ruleWest_def engine_eval)

subsection \<open>Changes and callback calls\<close>

text \<open>
  C7, as the code has it. The count that the engine returns is the number of
  replaced leaves. When a callback is passed, it is called once for every replaced
  leaf, in the order of the depth-first walk, with the path from the root (below
  the given prefix: keys literally, indices as \<^verbatim>\<open>[i]\<close>, joined by \<^verbatim>\<open> > \<close>), the
  old and the new value; when no callback is passed, nothing is reported. The
  replaced leaves are the leaves of the tree in walk order that have a new value.
\<close>

theorem changes_and_events:
  "snd (replaceStringsDeep r pathParts t)
     = (length (hits r t), if onReplace r then map (eventOf pathParts) (hits r t) else [])
   \<and> hits r t = map (\<lambda>(p, v). (p, v, the (newValue r p v)))
                    (filter (\<lambda>(p, v). newValue r p v \<noteq> None) (leaves t))"
proof -
  have "\<And>ls. List.map_filter (hitAt r) ls
           = map (\<lambda>(p, v). (p, v, the (newValue r p v)))
               (filter (\<lambda>(p, v). newValue r p v \<noteq> None) ls)"
  proof -
    fix ls :: "(seg list \<times> string) list"
    show "List.map_filter (hitAt r) ls
           = map (\<lambda>(p, v). (p, v, the (newValue r p v)))
               (filter (\<lambda>(p, v). newValue r p v \<noteq> None) ls)"
      by (induction ls) (auto simp: hitAt_def)
  qed
  then show ?thesis
    using engine_hits(1) [of r pathParts t] by (simp add: hits_def)
qed

text \<open>With notification on, the three replacements of the example are reported in
  walk order with their joined paths.\<close>

theorem changes_and_events_witness:
  "snd (replaceStringsDeep (ruleWest None True) [''root''] docTree)
     = (3, [(''root > facing'', ''west'', ''north''),
            (''root > direction'', ''west'', ''north''),
            (''root > list > [0]'', ''west'', ''north'')])"
  using changes_and_events [of "ruleWest None True" "[''root'']" docTree]
  by (simp add: ruleWest_def docTree_def engine_eval List.map_filter_def)

text \<open>
  C7 as stated fails for a rule without notification (\<^verbatim>\<open>onReplace\<close> is \<^verbatim>\<open>null\<close>,
  the default): one replacement is counted and no event is emitted.
\<close>

theorem silent_replacement_has_no_event:
  "replaceStringsDeep (ruleWest None False) [] (NbtCompound [(''facing'', NbtString ''west'')])
     = (NbtCompound [(''facing'', NbtString ''north'')], 1, [])"
  by (simp add: ruleWest_def engine_eval)

subsection \<open>Applying a rule twice\<close>

text \<open>
  C9, as the code has it. Applying the same rule to the output of its first
  application changes nothing, reports nothing and returns zero, provided no value
  that the first application wrote is itself matched by the rule. For exact
  matching that is the case as soon as \<open>to\<close> differs from \<open>from\<close>. For pattern
  matching the statement is about the patterns that \<open>regexp\<close> stands for: those
  whose \<^verbatim>\<open>replace\<close> does not depend on \<^verbatim>\<open>lastIndex\<close>, which is every flag set
  except a sticky \<^verbatim>\<open>y\<close> without \<^verbatim>\<open>g\<close>. A sticky pattern carries its position
  from one leaf to the next and is outside this statement.
\<close>

theorem second_pass_no_change:
  assumes "(\<not> useRegex r \<and> to r \<noteq> from' r) \<or>
           (\<forall>(p, v) \<in> set (leaves t). \<forall>v'. newValue r p v = Some v' \<longrightarrow> replacement r v' = None)"
  shows "replaceStringsDeep r pathParts' (fst (replaceStringsDeep r pathParts t))
           = (fst (replaceStringsDeep r pathParts t), 0, [])"
proof -
  have stable: "\<And>p v v'. (p, v) \<in> set (leaves t) \<Longrightarrow> newValue r p v = Some v' \<Longrightarrow> replacement r v' = None"
    using assms
  proof
    assume "\<not> useRegex r \<and> to r \<noteq> from' r"
    then show "\<And>p v v'. (p, v) \<in> set (leaves t) \<Longrightarrow> newValue r p v = Some v' \<Longrightarrow> replacement r v' = None"
      by (auto simp: newValue_def replacement_exact split: if_splits)
  next
    assume "\<forall>(p, v) \<in> set (leaves t). \<forall>v'. newValue r p v = Some v' \<longrightarrow> replacement r v' = None"
    then show "\<And>p v v'. (p, v) \<in> set (leaves t) \<Longrightarrow> newValue r p v = Some v' \<Longrightarrow> replacement r v' = None"
      by blast
  qed
  have "\<And>x. x \<in> set (leaves t) \<Longrightarrow> hitAt r (valueAfter r x) = None"
  proof -
    fix x assume x: "x \<in> set (leaves t)"
    obtain p v where pv: "x = (p, v)" by (cases x)
    show "hitAt r (valueAfter r x) = None"
    proof (cases "newValue r p v")
      case None
      then show ?thesis by (simp add: pv hitAt_def valueAfter_def)
    next
      case (Some v')
      with stable x pv have "replacement r v' = None" by blast
      with Some show ?thesis by (simp add: pv hitAt_def valueAfter_def newValue_def)
    qed
  qed
  then have "List.map_filter (hitAt r) (map (valueAfter r) (leaves t)) = []"
    by (induction "leaves t") (auto simp: List.map_filter_def)
  then have "hits r (fst (replaceStringsDeep r pathParts t)) = []"
    by (simp add: hits_def engine_leaves(1))
  then show ?thesis by (rule hits_Nil_result)
qed

text \<open>The rule \<^verbatim>\<open>west\<close> to \<^verbatim>\<open>north\<close> applied twice to the example tree, and the
  pattern rule that strips \<^verbatim>\<open>ns:\<close> applied twice to a tree in which the prefix
  occurs once: the first application changes one leaf, the second none.\<close>

theorem second_pass_no_change_witness:
  "replaceStringsDeep (ruleWest None True) [] (fst (replaceStringsDeep (ruleWest None True) [] docTree))
     = (NbtCompound
         [(''facing'', NbtString ''north''), (''direction'', NbtString ''north''),
          (''name'', NbtString ''northwest''),
          (''list'', NbtList [NbtString ''north'', NbtString ''north'', NbtOther 7])], 0, [])
   \<and> useRegex ruleStripNs
   \<and> replaceStringsDeep ruleStripNs [] nsTree
     = (NbtCompound [(''id'', NbtString ''oak''), (''name'', NbtString ''oak'')], 1, [])
   \<and> replaceStringsDeep ruleStripNs [] (fst (replaceStringsDeep ruleStripNs [] nsTree))
     = (NbtCompound [(''id'', NbtString ''oak''), (''name'', NbtString ''oak'')], 0, [])"
proof -
  have exact: "(\<not> useRegex (ruleWest None True) \<and> to (ruleWest None True) \<noteq> from' (ruleWest None True))
      \<or> (\<forall>(p, v) \<in> set (leaves docTree). \<forall>v'. newValue (ruleWest None True) p v = Some v'
            \<longrightarrow> replacement (ruleWest None True) v' = None)"
    by (simp add: ruleWest_def)
  have first: "replaceStringsDeep ruleStripNs [] nsTree
     = (NbtCompound [(''id'', NbtString ''oak''), (''name'', NbtString ''oak'')], 1, [])"
    by (simp add: ruleStripNs_def nsTree_def anchoredLiteral_def engine_eval)
  have stable: "\<forall>(p, v) \<in> set (leaves nsTree). \<forall>v'. newValue ruleStripNs p v = Some v'
      \<longrightarrow> replacement ruleStripNs v' = None"
    by (simp add: ruleStripNs_def nsTree_def anchoredLiteral_def engine_eval)
  then have pattern: "(\<not> useRegex ruleStripNs \<and> to ruleStripNs \<noteq> from' ruleStripNs)
      \<or> (\<forall>(p, v) \<in> set (leaves nsTree). \<forall>v'. newValue ruleStripNs p v = Some v'
            \<longrightarrow> replacement ruleStripNs v' = None)"
    by blast
  have re: "useRegex ruleStripNs" by (simp add: ruleStripNs_def)
  show ?thesis
    using second_pass_no_change [OF exact, of "[]" "[]"]
      second_pass_no_change [OF pattern, of "[]" "[]"] first re
    by (simp add: ruleWest_def docTree_def engine_eval)
qed

text \<open>
  C9 as stated fails for pattern matching. The rule \<^verbatim>\<open>{from: "^ns:", to: "",
  regex: true}\<close> has a template that the pattern does not match (replacing in the
  template gives the template), yet on the value \<^verbatim>\<open>ns:ns:oak\<close> the first
  application writes \<^verbatim>\<open>ns:oak\<close> and the second changes it again to \<^verbatim>\<open>oak\<close>.
\<close>

theorem second_pass_changes_again:
  "anchoredLiteral ''ns:'' (to ruleStripNs) (to ruleStripNs) = to ruleStripNs \<and>
   replaceStringsDeep ruleStripNs [] (NbtCompound [(''id'', NbtString ''ns:ns:oak'')])
     = (NbtCompound [(''id'', NbtString ''ns:oak'')], 1, []) \<and>
   replaceStringsDeep ruleStripNs [] (NbtCompound [(''id'', NbtString ''ns:oak'')])
     = (NbtCompound [(''id'', NbtString ''oak'')], 1, [])"
  by (simp add: ruleStripNs_def anchoredLiteral_def engine_eval)

subsection \<open>A String tag at the root\<close>

text \<open>
  C10. Applied to a tree whose root is itself a String tag, the engine returns zero
  changes, never calls the callback and leaves the value as it is, whatever the
  rule: also when the value equals \<open>from\<close> or the pattern would rewrite it. Only a
  String tag that is a child of a compound or an element of a list is ever
  replaced.
\<close>

theorem root_string_untouched:
  "replaceStringsDeep r pathParts (NbtString v) = (NbtString v, 0, [])"
  by simp

text \<open>A root holding exactly \<^verbatim>\<open>west\<close> under the rule \<^verbatim>\<open>west\<close> to \<^verbatim>\<open>north\<close>.\<close>

theorem root_string_untouched_witness:
  "from' (ruleWest None True) = ''west'' \<and>
   replaceStringsDeep (ruleWest None True) [] (NbtString ''west'') = (NbtString ''west'', 0, [])"
  using root_string_untouched [of "ruleWest None True" "[]" "''west''"]
  by (simp add: ruleWest_def)

section \<open>Properties of the format resolution and of processing a file\<close>

lemma logAllStringTags_leaves:
  "logAllStringTags t = length (leaves t)"
  "logCompound es = length (leavesCompound es)"
  "logList xs = length (leavesList i xs)"
  by (induction t and es and i xs rule: leaves_leavesCompound_leavesList.induct) simp_all

lemma retryRead_eq:
  "retryRead read buf strats =
     (case filter (\<lambda>tmp. leaves (root tmp) \<noteq> []) (List.map_filter (readOk read buf) strats) of
        [] \<Rightarrow> None | tmp # _ \<Rightarrow> Some tmp)"
  by (induction strats)
     (auto simp: readOk_def logAllStringTags_leaves(1) split: sum.splits list.splits)

lemmas file_eval =
  parseFile_def attempts_def toLowerCase_def endsWith_def retryStrategies_def bedrock_def
  endian_def compressed_def processFile_def readOk_def

subsection \<open>The retry on a tree without strings\<close>

text \<open>
  C6, as the code has it. When some attempt of the primary list reads the file, the
  tree that goes into the replacement is the accepted one if it holds at least one
  String tag, whether or not that tag passes the rule's filters. If it holds no
  String tag at all, the retry strategies are read in order and the first one that
  reads without error and yields a tree with at least one String tag (matching or
  not) replaces the accepted tree; if there is none, the accepted tree is used.
\<close>

theorem retry_on_string_free_tree:
  assumes "firstRead read buf (attempts (toLowerCase filePath)) None = (lastErr, Some accepted)"
  shows "parseFile read buf filePath =
           Inr (if leaves (root accepted) \<noteq> [] then accepted
                else case filter (\<lambda>tmp. leaves (root tmp) \<noteq> [])
                            (List.map_filter (readOk read buf) retryStrategies) of
                       [] \<Rightarrow> accepted
                     | tmp # _ \<Rightarrow> tmp)"
  using assms
  by (simp add: parseFile_def retryRead_eq logAllStringTags_leaves(1) split: list.splits)

text \<open>A file whose default read is an empty compound: the retry with the Bedrock
  header finds a string, and its tree is used.\<close>

theorem retry_on_string_free_tree_witness:
  "firstRead emptyFirstReader [10, 0] (attempts (toLowerCase ''a.nbt'')) None
     = (None, Some \<lparr>root = NbtCompound [], header = 0\<rparr>) \<and>
   parseFile emptyFirstReader [10, 0] ''a.nbt''
     = Inr \<lparr>root = NbtCompound [(''facing'', NbtString ''west'')], header = 1\<rparr>"
proof -
  have first: "firstRead emptyFirstReader [10, 0] (attempts (toLowerCase ''a.nbt'')) None
     = (None, Some \<lparr>root = NbtCompound [], header = 0\<rparr>)"
    by (simp add: file_eval emptyFirstReader_def)
  show ?thesis
    using first retry_on_string_free_tree [OF first]
    by (simp add: file_eval emptyFirstReader_def exampleReader_def List.map_filter_def)
qed

text \<open>
  C6 as stated fails when the accepted tree holds strings that the rule's filter
  excludes. Under the rule with property \<^verbatim>\<open>facing\<close> the accepted tree of the
  example has no String leaf that passes the filter, and the retry strategy
  \<^verbatim>\<open>bedrockHeader\<close> would yield a tree with a matching leaf; yet no retry takes
  place and the accepted tree is used.
\<close>

theorem no_retry_when_strings_miss_filter:
  "parseFile exampleReader [10, 0] ''a.nbt''
     = Inr \<lparr>root = NbtCompound [(''direction'', NbtString ''west'')], header = 0\<rparr>
   \<and> filter (\<lambda>(p, v). eligible (Some ''facing'') p)
        (leaves (NbtCompound [(''direction'', NbtString ''west'')])) = []
   \<and> (''bedrockHeader'', bedrock None) \<in> set retryStrategies
   \<and> exampleReader [10, 0] (bedrock None)
        = Inr \<lparr>root = NbtCompound [(''facing'', NbtString ''west'')], header = 1\<rparr>
   \<and> hits (ruleWest (Some ''facing'') False) (NbtCompound [(''facing'', NbtString ''west'')])
        = [([Key ''facing''], ''west'', ''north'')]"
  by (simp add: file_eval exampleReader_def ruleWest_def engine_eval)

subsection \<open>A file without a match\<close>

text \<open>
  C8. When the file exists, is decoded, and the tree that goes into the
  replacement has no leaf that the rule replaces, \<^verbatim>\<open>processFile\<close> returns
  \<^verbatim>\<open>{filesChanged: 0, stringsChanged: 0}\<close> without an error, and the world is as
  before except that the file has been read: no file content changes and nothing
  is written.
\<close>

theorem no_match_no_write:
  assumes "files w filePath = Some buf"
    and "parseFile read buf filePath = Inr nbtFile"
    and "hits r (root nbtFile) = []"
  shows "processFile read write w filePath r = (w\<lparr>reads := reads w @ [filePath]\<rparr>, Inr (0, 0))"
  using assms by (simp add: processFile_def hits_Nil_result)

text \<open>The example file under the rule with property \<^verbatim>\<open>facing\<close>: its only string
  is stored under \<^verbatim>\<open>direction\<close>.\<close>

theorem no_match_no_write_witness:
  "processFile exampleReader exampleWriter exampleWorld ''a.nbt'' (ruleWest (Some ''facing'') True)
     = (\<lparr>files = [''a.nbt'' \<mapsto> [10, 0]], reads = [''a.nbt''], writes = []\<rparr>, Inr (0, 0))"
proof -
  have 1: "files exampleWorld ''a.nbt'' = Some [10, 0]"
    by (simp add: exampleWorld_def)
  have 2: "parseFile exampleReader [10, 0] ''a.nbt''
             = Inr \<lparr>root = NbtCompound [(''direction'', NbtString ''west'')], header = 0\<rparr>"
    by (simp add: file_eval exampleReader_def)
  have 3: "hits (ruleWest (Some ''facing'') True)
             (root \<lparr>root = NbtCompound [(''direction'', NbtString ''west'')], header = 0\<rparr>) = []"
    by (simp add: ruleWest_def engine_eval)
  show ?thesis
    using no_match_no_write [OF 1 2 3, of exampleWriter] by (simp add: exampleWorld_def)
qed

section \<open>Properties of the run\<close>

lemma processRules_invalid:
  "invalidRule e bad \<Longrightarrow> processRules e n (bad # rest) w totals = (w, Exit 1)"
  by (auto simp: invalidRule_def)

lemma processRules_append:
  "processRules e n (pre @ rest) w totals =
     (case processRules e n pre w totals of
        (w', Done f s) \<Rightarrow> processRules e n rest w' (f, s)
      | (w', Exit c) \<Rightarrow> (w', Exit c))"
proof (induction pre arbitrary: w totals)
  case Nil
  show ?case by (cases totals) simp
next
  case (Cons rule pre)
  show ?case
    by (simp add: Cons.IH Let_def split: option.splits prod.splits)
qed

lemma processRules_exit_code:
  "processRules e n rules w totals = (w', Exit c) \<Longrightarrow> c = 1"
proof (induction rules arbitrary: w totals)
  case Nil
  then show ?case by (cases totals) simp
next
  case (Cons rule rules)
  then show ?case
    by (auto simp: Let_def split: if_splits option.splits prod.splits)
qed

lemmas run_eval =
  main_def missingRequired_def compileRule_def invalidRule_def truthy_def exampleEnv_def
  exampleWorld_def westRule_def exampleReader_def exampleWriter_def

subsection \<open>An invalid rule\<close>

text \<open>
  C3, as the code has it. The rules are checked one at a time, each at the start of
  its own turn of the loop. When the loop reaches a rule that misses a required
  field or whose pattern does not compile, the run ends with exit code 1 in the
  world that the rules before it have left: no file of the offending rule or of a
  later rule is read or written, and every rule before it has been processed in
  full.
\<close>

theorem invalid_rule_stops_run:
  assumes "invalidRule e bad"
  shows "main e n (pre @ bad # rest) w = (fst (main e n pre w), Exit 1)"
proof -
  obtain w' out where p: "processRules e n pre w (0, 0) = (w', out)"
    by (cases "processRules e n pre w (0, 0)")
  show ?thesis
  proof (cases out)
    case (Exit c)
    with p have "c = 1" using processRules_exit_code [of e n pre w "(0, 0)" w' c] by simp
    with p Exit show ?thesis by (simp add: main_def processRules_append)
  next
    case (Done f s)
    have "processRules e n (bad # rest) w' (f, s) = (w', Exit 1)"
      using assms by (rule processRules_invalid)
    with p Done show ?thesis
      by (simp add: main_def processRules_append del: processRules.simps)
  qed
qed

text \<open>Three rules of which the second has no \<^verbatim>\<open>to\<close>: the run stops with code 1
  after the first rule has rewritten the file.\<close>

theorem invalid_rule_stops_run_witness:
  "invalidRule exampleEnv (westRule None) \<and>
   main exampleEnv None [westRule (Some ''north''), westRule None, westRule (Some ''south'')] exampleWorld
     = (\<lparr>files = [''a.nbt'' \<mapsto> [0, 1]], reads = [''a.nbt''], writes = [''a.nbt'']\<rparr>, Exit 1)"
proof -
  have bad: "invalidRule exampleEnv (westRule None)"
    by (simp add: run_eval)
  have "fst (main exampleEnv None [westRule (Some ''north'')] exampleWorld)
          = \<lparr>files = [''a.nbt'' \<mapsto> [0, 1]], reads = [''a.nbt''], writes = [''a.nbt'']\<rparr>"
    by (simp add: run_eval file_eval engine_eval)
  then show ?thesis
    using bad invalid_rule_stops_run [OF bad, of None "[westRule (Some ''north'')]" "[westRule (Some ''south'')]" exampleWorld]
    by simp
qed

text \<open>
  C3 as stated fails when a valid rule stands before the invalid one: the run ends
  with exit code 1, but the file of the first rule has been read and rewritten.
\<close>

theorem earlier_rule_already_processed:
  "case main exampleEnv None [westRule (Some ''north''), westRule None] exampleWorld of
     (w', out) \<Rightarrow>
       out = Exit 1 \<and> reads w' = [''a.nbt''] \<and> writes w' = [''a.nbt''] \<and>
       files exampleWorld ''a.nbt'' = Some [10, 0] \<and> files w' ''a.nbt'' = Some [0, 1]"
  by (simp add: run_eval file_eval engine_eval)

section \<open>Properties of the rounding\<close>
















subsection \<open>The rounding error\<close>








section \<open>Properties of the controller\<close>

subsection \<open>The means of the code and the exact means\<close>














subsection \<open>One completion\<close>






lemma recordCompletion_unfold:
  "recordCompletion duration c =
     (if adjustmentInterval c \<le> completedSinceAdjust c + 1
      then (adjustConcurrency (c\<lparr>recentTimes := rolled c duration,
                                  completedSinceAdjust := completedSinceAdjust c + 1\<rparr>))
             \<lparr>completedSinceAdjust := 0\<rparr>
      else c\<lparr>recentTimes := rolled c duration, completedSinceAdjust := completedSinceAdjust c + 1\<rparr>)"
  by (auto simp: recordCompletion_def pushTime_def rolled_def Let_def)



text \<open>
  On the edge of the band rounding decides. The history 14, 25, 9, 5, 27, 0 has the
  mean 80/6 and the recent mean 32/3, which is exactly four fifths of it; the
  doubles \<^verbatim>\<open>recentAvg\<close> and \<^verbatim>\<open>avgTime * 0.8\<close> differ in the last bit, and the test
  \<^verbatim>\<open>recentAvg < avgTime * 0.8\<close> holds.
\<close>

lemma band_edge_decided_by_rounding:
  "faster [14, 25, 9, 5, 27, 0] \<and> (32 / 3 :: rat) = 4 / 5 * (80 / 6)"
proof -
  have "faster [14, 25, 9, 5, 27, 0]" by code_simp
  then show ?thesis by simp
qed

lemmas controller_eval =
  busyController_def slowController_def edgeController_def fractionalController_def
  backwardsController_def newController_def

subsection \<open>The feedback loop\<close>




subsection \<open>The limits of the working limit\<close>

text \<open>
  C5. For every ceiling \<open>C\<close> the controller starts with the working limit
  \<open>max 1 \<lfloor>C / 2\<rfloor>\<close>, which for a whole number \<open>n\<close> is \<open>max 1 (n div 2)\<close>, and the
  ceiling \<open>max 1 C\<close>, and the working limit lies between 1 and the ceiling. Every
  adjustment, and every recorded completion, keeps the ceiling and keeps the
  working limit between 1 and the ceiling.
\<close>

theorem concurrency_limits:
  "currentConcurrency (newController C) = max 1 (of_int \<lfloor>C / 2\<rfloor>)
   \<and> currentConcurrency (newController (of_int n)) = of_int (max 1 (n div 2))
   \<and> maxConcurrency (newController C) = max 1 C
   \<and> withinLimits (newController C)
   \<and> (withinLimits c \<longrightarrow>
         withinLimits (adjustConcurrency c) \<and> maxConcurrency (adjustConcurrency c) = maxConcurrency c)
   \<and> (withinLimits c \<longrightarrow>
         withinLimits (recordCompletion duration c)
         \<and> maxConcurrency (recordCompletion duration c) = maxConcurrency c)"
proof -
  have adj: "withinLimits c \<Longrightarrow>
      withinLimits (adjustConcurrency c) \<and> maxConcurrency (adjustConcurrency c) = maxConcurrency c" for c
    by (auto simp: withinLimits_def adjustConcurrency_def)
  have half: "\<lfloor>(of_int n :: rat) / 2\<rfloor> = n div 2"
    using floor_divide_of_int_eq [of n 2, where ?'a = rat] by simp
  have whole: "currentConcurrency (newController (of_int n)) = of_int (max 1 (n div 2))"
    by (simp add: newController_def half max_def)
  have fl: "(of_int \<lfloor>C / 2\<rfloor> :: rat) \<le> C / 2" by (rule of_int_floor_le)
  have "withinLimits (newController C)"
    using fl by (auto simp: withinLimits_def newController_def max_def)
  moreover have "withinLimits c \<Longrightarrow> withinLimits (recordCompletion duration c)
         \<and> maxConcurrency (recordCompletion duration c) = maxConcurrency c"
    using adj [of "c\<lparr>recentTimes := rolled c duration,
                      completedSinceAdjust := completedSinceAdjust c + 1\<rparr>"]
    by (auto simp: recordCompletion_unfold withinLimits_def)
  ultimately show ?thesis
    using adj [of c] whole by (simp add: newController_def)
qed

text \<open>Ceiling 8: the controller starts at 4 of 8. Ceiling 2.5: it starts at 1 of
  2.5. The completions of the examples stay within the limits.\<close>

theorem concurrency_limits_witness:
  "currentConcurrency (newController 8) = 4 \<and> maxConcurrency (newController 8) = 8 \<and>
   currentConcurrency (newController (5 / 2)) = 1 \<and> maxConcurrency (newController (5 / 2)) = 5 / 2 \<and>
   withinLimits busyController \<and> withinLimits (recordCompletion 10 busyController) \<and>
   withinLimits fractionalController \<and> withinLimits (recordCompletion 10 fractionalController)"
proof -
  have w: "withinLimits busyController" "withinLimits fractionalController"
    by (simp_all add: withinLimits_def controller_eval)
  have fl: "\<lfloor>8 / 2 :: rat\<rfloor> = 4" "\<lfloor>5 / 2 / 2 :: rat\<rfloor> = 1" by linarith+
  show ?thesis
    using w concurrency_limits [of 8 8 busyController 10]
      concurrency_limits [of "5 / 2" 0 fractionalController 10]
    by (simp add: fl)
qed

end
